theory Spec2Isabelle
  imports Complex_Main
begin

section \<open>Numbers of the simulation\<close>

text \<open>
  The environment of \<^verbatim>\<open>environment/power_env.py\<close> computes on NumPy floats. A float is
  modelled as a finite number, one of the two infinities, or NaN. Finite arithmetic is
  exact (no rounding, no overflow, no signed zero); what is kept of IEEE arithmetic is
  what the program's control flow depends on: NaN propagates through every operation,
  every comparison with NaN is false, and the infinities saturate. The configuration
  and the demand series hold finite numbers (\<open>real\<close>); an action comes from a policy
  and may hold any float.
\<close>

datatype fval = Fin real | PInf | NInf | NaN

text \<open>
  The exceptions the environment can raise: Python's KeyError, ValueError and
  IndexError, and \<^verbatim>\<open>gymnasium.error.Error\<close>.
\<close>

datatype error = KeyError | ValueError | IndexError | GymnasiumError

fun isfinite :: "fval \<Rightarrow> bool" where
  "isfinite (Fin x) = True"
| "isfinite PInf = False"
| "isfinite NInf = False"
| "isfinite NaN = False"

fun fadd :: "fval \<Rightarrow> fval \<Rightarrow> fval" where
  "fadd (Fin a) (Fin b) = Fin (a + b)"
| "fadd (Fin a) PInf = PInf"
| "fadd (Fin a) NInf = NInf"
| "fadd (Fin a) NaN = NaN"
| "fadd PInf (Fin b) = PInf"
| "fadd PInf PInf = PInf"
| "fadd PInf NInf = NaN"
| "fadd PInf NaN = NaN"
| "fadd NInf (Fin b) = NInf"
| "fadd NInf PInf = NaN"
| "fadd NInf NInf = NInf"
| "fadd NInf NaN = NaN"
| "fadd NaN y = NaN"

text \<open>Multiplication of a float by a finite number.\<close>

fun fscale :: "fval \<Rightarrow> real \<Rightarrow> fval" where
  "fscale (Fin a) r = Fin (a * r)"
| "fscale PInf r = (if r = 0 then NaN else if 0 < r then PInf else NInf)"
| "fscale NInf r = (if r = 0 then NaN else if 0 < r then NInf else PInf)"
| "fscale NaN r = NaN"

text \<open>
  Division of a float by a finite number; NumPy does not raise on a zero divisor, it
  yields an infinity or NaN.
\<close>

fun fdivr :: "fval \<Rightarrow> real \<Rightarrow> fval" where
  "fdivr (Fin a) r =
     (if r = 0 then (if a = 0 then NaN else if 0 < a then PInf else NInf)
      else Fin (a / r))"
| "fdivr PInf r = (if 0 \<le> r then PInf else NInf)"
| "fdivr NInf r = (if 0 \<le> r then NInf else PInf)"
| "fdivr NaN r = NaN"

fun fabs :: "fval \<Rightarrow> fval" where
  "fabs (Fin a) = Fin \<bar>a\<bar>"
| "fabs PInf = PInf"
| "fabs NInf = PInf"
| "fabs NaN = NaN"

fun fneg :: "fval \<Rightarrow> fval" where
  "fneg (Fin a) = Fin (- a)"
| "fneg PInf = NInf"
| "fneg NInf = PInf"
| "fneg NaN = NaN"

text \<open>\<^verbatim>\<open>x > r\<close> for a float \<open>x\<close> and a finite \<open>r\<close>; false on NaN.\<close>

fun fgt :: "fval \<Rightarrow> real \<Rightarrow> bool" where
  "fgt (Fin a) r = (r < a)"
| "fgt PInf r = True"
| "fgt NInf r = False"
| "fgt NaN r = False"

text \<open>
  \<^verbatim>\<open>np.clip(x, lo, hi)\<close> with finite bounds is \<^verbatim>\<open>np.minimum(np.maximum(x, lo), hi)\<close>;
  both propagate NaN.
\<close>

fun np_clip :: "fval \<Rightarrow> real \<Rightarrow> real \<Rightarrow> fval" where
  "np_clip (Fin x) lo hi = Fin (min (max x lo) hi)"
| "np_clip PInf lo hi = Fin hi"
| "np_clip NInf lo hi = Fin (min lo hi)"
| "np_clip NaN lo hi = NaN"

text \<open>\<^verbatim>\<open>np.sum\<close> of a one-dimensional array; the empty sum is 0.\<close>

fun np_sum :: "fval list \<Rightarrow> fval" where
  "np_sum [] = Fin 0"
| "np_sum (x # xs) = fadd x (np_sum xs)"

text \<open>\<^verbatim>\<open>np.max\<close> raises ValueError on an empty array.\<close>

fun np_max :: "real list \<Rightarrow> error + real" where
  "np_max [] = Inl ValueError"
| "np_max [x] = Inr x"
| "np_max (x # y # ys) = (case np_max (y # ys) of Inl e \<Rightarrow> Inl e | Inr m \<Rightarrow> Inr (max x m))"

text \<open>
  NumPy broadcasting of a binary operation over two one-dimensional arrays: equal
  lengths combine elementwise, an array of length 1 is stretched, anything else raises
  ValueError.
\<close>

definition broadcast2 :: "('a \<Rightarrow> 'b \<Rightarrow> 'c) \<Rightarrow> 'a list \<Rightarrow> 'b list \<Rightarrow> error + 'c list" where
  "broadcast2 f xs ys =
     (if length xs = length ys then Inr (map2 f xs ys)
      else if length xs = 1 then Inr (map (f (hd xs)) ys)
      else if length ys = 1 then Inr (map (\<lambda>x. f x (hd ys)) xs)
      else Inl ValueError)"

text \<open>
  The in-place \<^verbatim>\<open>xs += ys\<close>: the result keeps the shape of \<open>xs\<close>, so only \<open>ys\<close> may be
  stretched.
\<close>

definition iadd :: "fval list \<Rightarrow> fval list \<Rightarrow> error + fval list" where
  "iadd xs ys =
     (if length ys = length xs then Inr (map2 fadd xs ys)
      else if length ys = 1 then Inr (map (\<lambda>x. fadd x (hd ys)) xs)
      else Inl ValueError)"

section \<open>Configuration and state\<close>

record weights =
  generation_cost :: real
  supply_demand_gap :: real
  ramping_penalty :: real
  overload_penalty :: real

text \<open>
  The \<^verbatim>\<open>environment\<close> section of the configuration dictionary; a missing key is
  \<open>None\<close>. \<^verbatim>\<open>max_ramping\<close> is the scalar ramping rate that scales an action.
\<close>

record config =
  cfg_num_generators :: "int option"
  cfg_generator_capacities :: "real list option"
  cfg_generator_costs :: "real list option"
  cfg_max_ramping :: "real option"
  cfg_reward_weights :: "weights option"

text \<open>
  The fields of \<^verbatim>\<open>PowerGridEnvironment\<close>. \<open>np_random\<close> is the generator that
  \<^verbatim>\<open>gym.Env.reset(seed=seed)\<close> owns, abstracted to the seed that initialised it.
\<close>

record env =
  load_data :: "real list"
  mode :: string
  num_generators :: int
  capacities :: "real list"
  costs :: "real list"
  max_ramping :: real
  reward_weights :: weights
  obs_dim :: int
  current_step :: nat
  current_output :: "fval list"
  max_steps :: int
  np_random :: "int option"

definition default_weights :: weights where
  "default_weights =
     \<lparr>generation_cost = 1.0, supply_demand_gap = 10.0,
      ramping_penalty = 0.1, overload_penalty = 50.0\<rparr>"

text \<open>
  \<^verbatim>\<open>__init__\<close>: the four subscripted keys raise KeyError when missing, \<^verbatim>\<open>reward_weights\<close>
  is read with \<^verbatim>\<open>.get\<close> and a default; a negative \<^verbatim>\<open>num_generators\<close> is refused as the
  shape of the action space.
\<close>

definition init :: "real list \<Rightarrow> config \<Rightarrow> string \<Rightarrow> error + env" where
  "init load cfg md =
     (case cfg_num_generators cfg of None \<Rightarrow> Inl KeyError | Some n \<Rightarrow>
      case cfg_generator_capacities cfg of None \<Rightarrow> Inl KeyError | Some caps \<Rightarrow>
      case cfg_generator_costs cfg of None \<Rightarrow> Inl KeyError | Some cs \<Rightarrow>
      case cfg_max_ramping cfg of None \<Rightarrow> Inl KeyError | Some ramp \<Rightarrow>
      let w = (case cfg_reward_weights cfg of None \<Rightarrow> default_weights | Some w' \<Rightarrow> w') in
      if n < 0 then Inl ValueError
      else Inr \<lparr>load_data = load, mode = md, num_generators = n, capacities = caps,
                costs = cs, max_ramping = ramp, reward_weights = w,
                obs_dim = 1 + n + 4 + 2, current_step = 0,
                current_output = replicate (nat n) (Fin 0),
                max_steps = int (length load) - 5, np_random = None\<rparr>)"

section \<open>Observation Builder\<close>

text \<open>\<^verbatim>\<open>load_data[i]\<close> for a non-negative index.\<close>

definition load_at :: "real list \<Rightarrow> nat \<Rightarrow> error + real" where
  "load_at xs i = (if i < length xs then Inr (xs ! i) else Inl IndexError)"

definition forecast_of :: "real list \<Rightarrow> nat \<Rightarrow> real list" where
  "forecast_of load cs =
     (let forecast_steps = 4 in
      if cs + 1 + forecast_steps > length load then
        (let remaining = length load - (cs + 1);
             forecast = drop (cs + 1) load in
         if remaining < forecast_steps
         then forecast @ replicate (forecast_steps - remaining) (last load)
         else forecast)
      else take forecast_steps (drop (cs + 1) load))"

definition get_observation :: "env \<Rightarrow> error + fval list" where
  "get_observation e =
     (case load_at (load_data e) (current_step e) of Inl err \<Rightarrow> Inl err | Inr current_load \<Rightarrow>
      let forecast = forecast_of (load_data e) (current_step e);
          hour = current_step e mod 24;
          time_features = [sin (2 * pi * real hour / 24), cos (2 * pi * real hour / 24)];
          norm_load = [current_load / 10000]
      in (case np_max (capacities e) of Inl err \<Rightarrow> Inl err | Inr mx \<Rightarrow>
         (let norm_output = map (\<lambda>x. fdivr x mx) (current_output e);
              norm_forecast = map (\<lambda>x. x / 10000) forecast
          in Inr ((map Fin norm_load) @ norm_output @ (map Fin norm_forecast)
                  @ (map Fin time_features)))))"

section \<open>Reward Engine\<close>

text \<open>
  \<^verbatim>\<open>_calculate_reward\<close>, operation by operation and in the source's order. The
  operations are those of the first section: on finite numbers they are exact, so the
  definition fixes which operations are applied to which operands, not the digits that
  float32 and float64 arithmetic returns for a finite result.
\<close>

type_synonym info = "string \<rightharpoonup> fval"

definition calculate_reward :: "env \<Rightarrow> real \<Rightarrow> fval \<Rightarrow> fval list \<Rightarrow> error + (fval \<times> info)" where
  "calculate_reward e load generation adjustments =
     (case broadcast2 fscale (current_output e) (costs e) of Inl err \<Rightarrow> Inl err | Inr weighted \<Rightarrow>
      let op_cost = np_sum weighted;
          gap = fabs (fadd generation (Fin (- load)));
          ramping_cost = np_sum (map fabs adjustments);
          overload = (if fgt gap (0.1 * load) then fscale gap 2.0 else Fin 0);
          w = reward_weights e;
          reward = fneg
            (fadd (fadd (fadd (fscale (fdivr op_cost 10000) (generation_cost w))
                              (fscale (fdivr gap 1000) (supply_demand_gap w)))
                        (fscale (fdivr ramping_cost 100) (ramping_penalty w)))
                  (fscale (fdivr overload 1000) (overload_penalty w)))
      in Inr (reward,
              [''step_reward'' \<mapsto> reward, ''cost'' \<mapsto> op_cost, ''gap'' \<mapsto> gap,
               ''ramping'' \<mapsto> ramping_cost, ''overload'' \<mapsto> overload]))"

section \<open>Episode Controller\<close>

text \<open>
  \<^verbatim>\<open>np.random.randint(low, high)\<close> draws from the process-wide generator. Its state is
  abstracted to a counter: the draw is the counter reduced into \<open>[low, high)\<close>, and the
  counter advances. An empty range raises ValueError.
\<close>

type_synonym rng = nat

definition randint :: "int \<Rightarrow> int \<Rightarrow> rng \<Rightarrow> error + (int \<times> rng)" where
  "randint low high g =
     (if high \<le> low then Inl ValueError
      else Inr (low + int (g mod nat (high - low)), Suc g))"

text \<open>
  \<^verbatim>\<open>reset(seed)\<close>, given the state of the process-wide generator; it returns the
  observation, the info dictionary, the environment and the generator's new state.
  Its first statement, \<^verbatim>\<open>super().reset(seed=seed)\<close>, seeds the environment's own
  generator when a seed is given and raises \<^verbatim>\<open>gymnasium.error.Error\<close> for a negative
  seed, before anything is assigned.
\<close>

definition reset :: "env \<Rightarrow> int option \<Rightarrow> rng \<Rightarrow> error + (fval list \<times> info \<times> env \<times> rng)" where
  "reset e seed g =
     (if (case seed of None \<Rightarrow> False | Some s \<Rightarrow> s < 0) then Inl GymnasiumError
      else
      let e0 = (case seed of None \<Rightarrow> e | Some s \<Rightarrow> e\<lparr>np_random := Some s\<rparr>) in
      case (if mode e0 = ''train''
            then (case randint 0 (max_steps e0 - 24) g of
                    Inl err \<Rightarrow> Inl err
                  | Inr (k, g') \<Rightarrow> Inr (e0\<lparr>current_step := nat k\<rparr>, g'))
            else Inr (e0\<lparr>current_step := 0\<rparr>, g))
      of Inl err \<Rightarrow> Inl err
       | Inr (e1, g1) \<Rightarrow>
           let e2 = e1\<lparr>current_output := map (\<lambda>c. Fin (c * 0.5)) (capacities e1)\<rparr> in
           case get_observation e2 of Inl err \<Rightarrow> Inl err
           | Inr observation \<Rightarrow> Inr (observation, Map.empty, e2, g1))"

text \<open>The first two statements of \<^verbatim>\<open>step\<close>: the clipped action and the adjustments.\<close>

definition clip_action :: "fval list \<Rightarrow> fval list" where
  "clip_action action = map (\<lambda>a. np_clip a (- 1.0) 1.0) action"

definition adjustments_of :: "env \<Rightarrow> fval list \<Rightarrow> fval list" where
  "adjustments_of e action = map (\<lambda>a. fscale a (max_ramping e)) (clip_action action)"

text \<open>
  \<^verbatim>\<open>step(action)\<close> returns (observation, reward, terminated, truncated, info) and the
  environment after the call. An exception ends the call; the state it leaves behind
  is not modelled.
\<close>

definition step ::
  "env \<Rightarrow> fval list \<Rightarrow> error + ((fval list \<times> fval \<times> bool \<times> bool \<times> info) \<times> env)" where
  "step e action =
     (let adjustments = adjustments_of e action in
      case iadd (current_output e) adjustments of Inl err \<Rightarrow> Inl err | Inr out \<Rightarrow>
      case broadcast2 (\<lambda>x c. np_clip x 0 c) out (capacities e) of Inl err \<Rightarrow> Inl err
      | Inr out' \<Rightarrow>
      let e1 = e\<lparr>current_output := out'\<rparr> in
      case load_at (load_data e1) (current_step e1) of Inl err \<Rightarrow> Inl err
      | Inr current_load \<Rightarrow>
      let total_generation = np_sum (current_output e1) in
      case calculate_reward e1 current_load total_generation adjustments of
        Inl err \<Rightarrow> Inl err
      | Inr (reward, reward_info) \<Rightarrow>
      let e2 = e1\<lparr>current_step := current_step e1 + 1\<rparr>;
          terminated = False;
          truncated = (int (current_step e2) \<ge> max_steps e2) in
      case get_observation e2 of Inl err \<Rightarrow> Inl err
      | Inr observation \<Rightarrow>
      let info = [''load'' \<mapsto> Fin current_load, ''generation'' \<mapsto> total_generation,
                  ''cost'' \<mapsto> the (reward_info ''cost''),
                  ''gap'' \<mapsto> the (reward_info ''gap'')] ++ reward_info
      in Inr ((observation, reward, terminated, truncated, info), e2))"

text \<open>A sequence of steps; it stops at the first exception.\<close>

fun run :: "env \<Rightarrow> fval list list \<Rightarrow> error + env" where
  "run e [] = Inr e"
| "run e (a # as) = (case step e a of Inl err \<Rightarrow> Inl err | Inr (r, e') \<Rightarrow> run e' as)"

section \<open>Predicates and fixtures of the properties\<close>

text \<open>
  An output is within bounds when it is a finite number between 0, the lower bound of
  the clamp in \<^verbatim>\<open>step\<close>, and the capacity of its generator.
\<close>

fun in_bounds :: "fval \<Rightarrow> real \<Rightarrow> bool" where
  "in_bounds (Fin r) c = (0 \<le> r \<and> r \<le> c)"
| "in_bounds PInf c = False"
| "in_bounds NInf c = False"
| "in_bounds NaN c = False"

definition within_bounds :: "env \<Rightarrow> bool" where
  "within_bounds e = list_all2 in_bounds (current_output e) (capacities e)"


text \<open>
  The scenario of the specification: five generators of capacity 100, costs 10, 30,
  50, 0, 0, ramping rate 10, no \<^verbatim>\<open>reward_weights\<close> key; and its action.
\<close>

definition scenario_config :: config where
  "scenario_config =
     \<lparr>cfg_num_generators = Some 5,
      cfg_generator_capacities = Some [100, 100, 100, 100, 100],
      cfg_generator_costs = Some [10, 30, 50, 0, 0],
      cfg_max_ramping = Some 10,
      cfg_reward_weights = None\<rparr>"

definition scenario_action :: "fval list" where
  "scenario_action = [Fin 1, Fin 1, Fin (- 1), Fin (- 1), Fin 0]"

definition nan_action :: "fval list" where
  "nan_action = [NaN, NaN, NaN, NaN, NaN]"

text \<open>Demand series of three, six and a hundred samples.\<close>

definition demand3 :: "real list" where
  "demand3 = [400, 410, 420]"

definition demand6 :: "real list" where
  "demand6 = [400, 410, 420, 430, 440, 450]"

definition demand100 :: "real list" where
  "demand100 = map real [0..<100]"

text \<open>
  The scenario's environment on six samples in test mode, as constructed
  (\<open>scenario_init\<close>) and after \<^verbatim>\<open>reset\<close> (\<open>scenario_start\<close>); and its environment on a
  hundred samples in train mode.
\<close>

definition scenario_init :: env where
  "scenario_init = projr (init demand6 scenario_config ''test'')"

definition scenario_start :: env where
  "scenario_start =
     (case reset (projr (init demand6 scenario_config ''test'')) None 0 of
        Inr (obs, info, e, g) \<Rightarrow> e)"

definition train_env :: env where
  "train_env = projr (init demand100 scenario_config ''train'')"

section \<open>Properties\<close>

lemma init_scenario:
  "init load scenario_config md =
     Inr \<lparr>load_data = load, mode = md, num_generators = 5,
          capacities = [100, 100, 100, 100, 100], costs = [10, 30, 50, 0, 0],
          max_ramping = 10, reward_weights = default_weights,
          obs_dim = 12, current_step = 0,
          current_output = [Fin 0, Fin 0, Fin 0, Fin 0, Fin 0],
          max_steps = int (length load) - 5, np_random = None\<rparr>"
  by (simp add: init_def scenario_config_def eval_nat_numeral)

lemma reset_fields:
  assumes "reset e seed g = Inr (obs, info, e1, g1)"
  shows "current_output e1 = map (\<lambda>c. Fin (c * 0.5)) (capacities e)"
    and "capacities e1 = capacities e" and "costs e1 = costs e"
    and "max_ramping e1 = max_ramping e" and "load_data e1 = load_data e"
    and "max_steps e1 = max_steps e" and "reward_weights e1 = reward_weights e"
    and "mode e1 = mode e" and "info = Map.empty"
  using assms
  by (auto simp: reset_def Let_def split: sum.splits if_splits option.splits prod.splits)

lemma step_output:
  assumes "step e action = Inr (r, e2)"
  shows "\<exists>out. iadd (current_output e) (adjustments_of e action) = Inr out \<and>
           broadcast2 (\<lambda>x c. np_clip x 0 c) out (capacities e) = Inr (current_output e2)"
  using assms
  by (auto simp: step_def Let_def split: sum.splits prod.splits)

text \<open>
  Claim C8. In the scenario of five generators with capacities 100 each, costs
  10, 30, 50, 0, 0 and ramping rate 10, whatever the demand series, the mode and the seed:
  after a successful \<^verbatim>\<open>reset\<close> every output is 50; the action \<open>[1, 1, -1, -1, 0]\<close> gives
  the adjustments \<open>[10, 10, -10, -10, 0]\<close>; and a \<^verbatim>\<open>step\<close> with that action that returns
  leaves the outputs \<open>[60, 60, 40, 40, 50]\<close>.
\<close>

theorem scenario_outputs:
  assumes "init load scenario_config md = Inr e0"
    and "reset e0 seed g = Inr (obs, info, e1, g1)"
  shows "current_output e1 = [Fin 50, Fin 50, Fin 50, Fin 50, Fin 50] \<and>
         adjustments_of e1 scenario_action = [Fin 10, Fin 10, Fin (- 10), Fin (- 10), Fin 0] \<and>
         (\<forall>r e2. step e1 scenario_action = Inr (r, e2) \<longrightarrow>
            current_output e2 = [Fin 60, Fin 60, Fin 40, Fin 40, Fin 50])"
proof -
  from assms(1) have e0: "capacities e0 = [100, 100, 100, 100, 100]" "max_ramping e0 = 10"
    by (auto simp: init_scenario)
  note rf = reset_fields[OF assms(2)]
  have out1: "current_output e1 = [Fin 50, Fin 50, Fin 50, Fin 50, Fin 50]"
    by (simp add: rf(1) e0)
  have adj: "adjustments_of e1 scenario_action = [Fin 10, Fin 10, Fin (- 10), Fin (- 10), Fin 0]"
    by (simp add: adjustments_of_def clip_action_def scenario_action_def rf(4) e0)
  have "current_output e2 = [Fin 60, Fin 60, Fin 40, Fin 40, Fin 50]"
    if "step e1 scenario_action = Inr (r, e2)" for r e2
    using step_output[OF that]
    by (auto simp: adj out1 iadd_def broadcast2_def rf(2) e0)
  with out1 adj show ?thesis by blast
qed

lemma step_frame:
  assumes "step e action = Inr (r, e2)"
  shows "capacities e2 = capacities e" and "costs e2 = costs e"
    and "max_ramping e2 = max_ramping e" and "load_data e2 = load_data e"
    and "max_steps e2 = max_steps e" and "reward_weights e2 = reward_weights e"
    and "mode e2 = mode e" and "current_step e2 = current_step e + 1"
  using assms
  by (auto simp: step_def Let_def split: sum.splits prod.splits)

lemma clip_not_NaN: "a \<noteq> NaN \<Longrightarrow> \<exists>x. np_clip a lo hi = Fin x"
  by (cases a) auto

lemma adjustment_finite:
  assumes "a \<noteq> NaN"
  shows "\<exists>x. fscale (np_clip a lo hi) m = Fin x"
  using clip_not_NaN[OF assms, of lo hi] by auto

lemma in_bounds_Fin: "in_bounds x c \<Longrightarrow> \<exists>r. x = Fin r"
  by (cases x) auto

lemma step_within_bounds:
  assumes st: "step e action = Inr (r, e2)"
    and wb: "within_bounds e"
    and nn: "NaN \<notin> set action"
    and caps: "\<forall>c\<in>set (capacities e). 0 \<le> c"
  shows "within_bounds e2"
proof -
  from step_output[OF st] obtain out where
    out: "iadd (current_output e) (adjustments_of e action) = Inr out"
    and cl: "broadcast2 (\<lambda>x c. np_clip x 0 c) out (capacities e) = Inr (current_output e2)"
    by blast
  have len: "length (current_output e) = length (capacities e)"
    using wb by (simp add: within_bounds_def list_all2_lengthD)
  have cur: "\<exists>x. y = Fin x" if "y \<in> set (current_output e)" for y
  proof -
    from that obtain i where "i < length (current_output e)" "y = current_output e ! i"
      by (auto simp: in_set_conv_nth)
    with wb have "in_bounds y (capacities e ! i)"
      by (simp add: within_bounds_def list_all2_nthD)
    then show ?thesis by (rule in_bounds_Fin)
  qed
  have adj: "\<exists>x. y = Fin x" if "y \<in> set (adjustments_of e action)" for y
  proof -
    from that obtain a where a: "a \<in> set action" "y = fscale (np_clip a (- 1.0) 1.0) (max_ramping e)"
      by (auto simp: adjustments_of_def clip_action_def)
    with nn have "a \<noteq> NaN" by auto
    from adjustment_finite[OF this] a(2) show ?thesis by simp
  qed
  have adjhd: "\<exists>x. hd (adjustments_of e action) = Fin x" if "length (adjustments_of e action) = 1"
    using that adj[of "hd (adjustments_of e action)"]
    by (cases "adjustments_of e action") auto
  have lout: "length out = length (capacities e)"
    using out len by (auto simp: iadd_def split: if_splits)
  have fout: "\<exists>x. y = Fin x" if "y \<in> set out" for y
  proof (cases "length (adjustments_of e action) = length (current_output e)")
    case True
    with out have "out = map2 fadd (current_output e) (adjustments_of e action)"
      by (simp add: iadd_def)
    with that obtain a b where "a \<in> set (current_output e)" "b \<in> set (adjustments_of e action)"
      "y = fadd a b"
      by (auto dest: set_zip_leftD set_zip_rightD)
    with cur[of a] adj[of b] show ?thesis by auto
  next
    case False
    with out have one: "length (adjustments_of e action) = 1"
      and "out = map (\<lambda>x. fadd x (hd (adjustments_of e action))) (current_output e)"
      by (auto simp: iadd_def split: if_splits)
    with that obtain a where "a \<in> set (current_output e)"
      "y = fadd a (hd (adjustments_of e action))" by auto
    with cur[of a] adjhd[OF one] show ?thesis by auto
  qed
  from cl lout have eq: "current_output e2 = map2 (\<lambda>x c. np_clip x 0 c) out (capacities e)"
    by (simp add: broadcast2_def)
  have "list_all2 in_bounds (current_output e2) (capacities e)"
  proof (rule list_all2_all_nthI)
    show "length (current_output e2) = length (capacities e)"
      by (simp add: eq lout)
  next
    fix i assume "i < length (current_output e2)"
    then have i: "i < length out" "i < length (capacities e)"
      by (simp_all add: eq lout)
    then obtain x where x: "out ! i = Fin x" using fout[of "out ! i"] by auto
    from i caps have "0 \<le> capacities e ! i" by simp
    then show "in_bounds (current_output e2 ! i) (capacities e ! i)"
      using i x by (simp add: eq)
  qed
  then show ?thesis by (simp add: within_bounds_def step_frame(1)[OF st])
qed

lemma reset_within_bounds:
  assumes "reset e seed g = Inr (obs, info, e1, g1)"
    and "\<forall>c\<in>set (capacities e). 0 \<le> c"
  shows "within_bounds e1"
  using assms(2)
  by (auto simp: within_bounds_def reset_fields(1,2)[OF assms(1)] list_all2_conv_all_nth)

lemma run_within_bounds:
  assumes "run e actions = Inr e2"
    and "within_bounds e"
    and "\<forall>a\<in>set actions. NaN \<notin> set a"
    and "\<forall>c\<in>set (capacities e). 0 \<le> c"
  shows "within_bounds e2"
  using assms
proof (induction actions arbitrary: e)
  case Nil
  then show ?case by simp
next
  case (Cons a as)
  from Cons.prems(1) obtain r e' where st: "step e a = Inr (r, e')" and rn: "run e' as = Inr e2"
    by (auto split: sum.splits)
  have "within_bounds e'"
    using step_within_bounds[OF st Cons.prems(2)] Cons.prems(3,4) by simp
  moreover have "\<forall>c\<in>set (capacities e'). 0 \<le> c"
    using Cons.prems(4) by (simp add: step_frame(1)[OF st])
  ultimately show ?case using Cons.IH[OF rn] Cons.prems(3) by simp
qed

lemma init_fields:
  assumes "init load cfg md = Inr e"
  shows "load_data e = load" and "mode e = md"
    and "max_steps e = int (length load) - 5"
    and "current_step e = 0"
    and "cfg_generator_capacities cfg = Some (capacities e)"
    and "cfg_generator_costs cfg = Some (costs e)"
    and "cfg_max_ramping cfg = Some (max_ramping e)"
    and "cfg_num_generators cfg = Some (num_generators e)"
    and "0 \<le> num_generators e"
    and "current_output e = replicate (nat (num_generators e)) (Fin 0)"
    and "reward_weights e = (case cfg_reward_weights cfg of None \<Rightarrow> default_weights | Some w \<Rightarrow> w)"
  using assms
  by (auto simp: init_def Let_def split: option.splits if_splits)

text \<open>
  Away from NaN the clamp of \<^verbatim>\<open>step\<close> does what its comment says
  (\<^verbatim>\<open>0 <= output <= capacity\<close>): in an environment whose capacities are non-negative,
  after \<^verbatim>\<open>reset\<close> and any sequence of steps whose actions hold no NaN, every output is
  a finite number in \<open>[0, capacity]\<close> of its generator. Infinite action entries are
  allowed: the first clip maps them to \<open>-1\<close> or \<open>1\<close>.
\<close>

theorem outputs_within_bounds:
  assumes "init load cfg md = Inr e0"
    and "reset e0 seed g = Inr (obs, info, e1, g1)"
    and "run e1 actions = Inr e2"
    and "\<forall>a\<in>set actions. NaN \<notin> set a"
    and "\<forall>c\<in>set (capacities e0). 0 \<le> c"
  shows "within_bounds e2"
proof -
  have "within_bounds e1" using reset_within_bounds[OF assms(2,5)] .
  moreover have "\<forall>c\<in>set (capacities e1). 0 \<le> c"
    using assms(5) by (simp add: reset_fields(2)[OF assms(2)])
  ultimately show ?thesis using run_within_bounds[OF assms(3)] assms(4) by blast
qed

lemma scenario_start_eq:
  "scenario_start =
     \<lparr>load_data = demand6, mode = ''test'', num_generators = 5,
      capacities = [100, 100, 100, 100, 100], costs = [10, 30, 50, 0, 0],
      max_ramping = 10, reward_weights = default_weights,
      obs_dim = 12, current_step = 0,
      current_output = [Fin 50, Fin 50, Fin 50, Fin 50, Fin 50],
      max_steps = 1, np_random = None\<rparr>"
  by (simp add: scenario_start_def init_scenario reset_def get_observation_def load_at_def
      demand6_def forecast_of_def Let_def)

text \<open>
  Claim C1, evaluated at an action of five NaN from the scenario's start state:
  \<^verbatim>\<open>step\<close> returns and leaves every output NaN, which lies in no interval
  \<open>[min_output, capacity]\<close>. NaN passes through both clips of \<^verbatim>\<open>step\<close>, against its
  comment \<^verbatim>\<open>Enforce physical constraints: 0 <= output <= capacity\<close>.
\<close>

theorem nan_action_breaks_bounds:
  "(case step scenario_start nan_action of
      Inl err \<Rightarrow> False
    | Inr (r, e2) \<Rightarrow> current_output e2 = [NaN, NaN, NaN, NaN, NaN] \<and> \<not> within_bounds e2)"
  by (simp add: scenario_start_eq nan_action_def step_def adjustments_of_def clip_action_def
      iadd_def broadcast2_def load_at_def demand6_def calculate_reward_def
      get_observation_def forecast_of_def within_bounds_def Let_def)

lemma np_max_succeeds: "xs \<noteq> [] \<Longrightarrow> \<exists>m. np_max xs = Inr m"
  by (induction xs rule: np_max.induct) (auto split: sum.splits)

lemma get_observation_succeeds:
  assumes "current_step e < length (load_data e)" and "capacities e \<noteq> []"
  shows "\<exists>obs. get_observation e = Inr obs"
  using assms np_max_succeeds[OF assms(2)]
  by (auto simp: get_observation_def load_at_def Let_def)

lemma get_observation_index_error:
  assumes "length (load_data e) \<le> current_step e"
  shows "get_observation e = Inl IndexError"
  using assms by (simp add: get_observation_def load_at_def)

lemma calculate_reward_succeeds:
  assumes "length (current_output e) = length (costs e)"
  shows "\<exists>r i. calculate_reward e l g adj = Inr (r, i)"
  using assms by (simp add: calculate_reward_def broadcast2_def Let_def)

lemma step_succeeds:
  assumes "length (current_output e) = length (capacities e)"
    and "length (costs e) = length (capacities e)"
    and "capacities e \<noteq> []"
    and "length action = length (capacities e) \<or> length action = 1"
    and "current_step e + 1 < length (load_data e)"
  shows "\<exists>obs rew diag e2. step e action =
           Inr ((obs, rew, False, int (current_step e + 1) \<ge> max_steps e, diag), e2)"
proof -
  have la: "length (adjustments_of e action) = length action"
    by (simp add: adjustments_of_def clip_action_def)
  have "\<exists>out. iadd (current_output e) (adjustments_of e action) = Inr out \<and>
          length out = length (capacities e)"
    using assms(1,4) la
    by (cases "length action = length (capacities e)") (simp_all add: iadd_def)
  then obtain out where out: "iadd (current_output e) (adjustments_of e action) = Inr out"
    and lout: "length out = length (capacities e)"
    by blast
  define out' where "out' = map2 (\<lambda>x c. np_clip x 0 c) out (capacities e)"
  have cl: "broadcast2 (\<lambda>x c. np_clip x 0 c) out (capacities e) = Inr out'"
    using lout by (simp add: broadcast2_def out'_def)
  have lout': "length out' = length (costs e)"
    using lout assms(2) by (simp add: out'_def)
  define e1 where "e1 = e\<lparr>current_output := out'\<rparr>"
  from assms(5) have ld: "load_at (load_data e1) (current_step e1) = Inr (load_data e ! current_step e)"
    by (simp add: load_at_def e1_def)
  have "length (current_output e1) = length (costs e1)"
    using lout' by (simp add: e1_def)
  from calculate_reward_succeeds[OF this]
  obtain rew ri where cr: "calculate_reward e1 (load_data e ! current_step e)
      (np_sum (current_output e1)) (adjustments_of e action) = Inr (rew, ri)"
    by blast
  define e2 where "e2 = e1\<lparr>current_step := current_step e1 + 1\<rparr>"
  obtain obs where ob: "get_observation e2 = Inr obs"
    using get_observation_succeeds[of e2] assms(3,5) by (auto simp: e2_def e1_def)
  show ?thesis
    using out cl ld cr ob
    by (simp add: step_def Let_def e1_def[symmetric] e2_def[symmetric])
      (simp add: e2_def e1_def)
qed

lemma scenario_init_ok: "init demand6 scenario_config ''test'' = Inr scenario_init"
  by (simp add: scenario_init_def init_scenario)

lemma scenario_reset_ok:
  "\<exists>obs. reset scenario_init None 0 = Inr (obs, Map.empty, scenario_start, 0)"
  by (simp add: scenario_init_def scenario_start_eq init_scenario reset_def get_observation_def load_at_def
      demand6_def forecast_of_def Let_def)

lemma scenario_step_ok:
  "\<exists>obs rew diag e2. step scenario_start scenario_action = Inr ((obs, rew, False, True, diag), e2)"
  using step_succeeds[of scenario_start scenario_action]
  by (simp add: scenario_start_eq scenario_action_def demand6_def)

text \<open>
  Witness of C8 on a six-sample series in test mode: construction, \<^verbatim>\<open>reset\<close> and the
  \<^verbatim>\<open>step\<close> all return, with the outputs of the scenario.
\<close>

theorem scenario_outputs_witness:
  "\<exists>e0 obs info e1 g1 r e2.
     init demand6 scenario_config ''test'' = Inr e0 \<and>
     reset e0 None 0 = Inr (obs, info, e1, g1) \<and>
     step e1 scenario_action = Inr (r, e2) \<and>
     current_output e1 = [Fin 50, Fin 50, Fin 50, Fin 50, Fin 50] \<and>
     adjustments_of e1 scenario_action = [Fin 10, Fin 10, Fin (- 10), Fin (- 10), Fin 0] \<and>
     current_output e2 = [Fin 60, Fin 60, Fin 40, Fin 40, Fin 50]"
proof -
  from scenario_reset_ok obtain obs where
    rs: "reset scenario_init None 0 = Inr (obs, Map.empty, scenario_start, 0)" by blast
  from scenario_step_ok obtain r e2 where
    st: "step scenario_start scenario_action = Inr (r, e2)" by blast
  from scenario_outputs[OF scenario_init_ok rs] st
  show ?thesis using scenario_init_ok rs by blast
qed

text \<open>
  The bound at a concrete input: the scenario, one step with the scenario's action.
\<close>

theorem outputs_within_bounds_witness:
  "\<exists>e0 obs info e1 g1 e2.
     init demand6 scenario_config ''test'' = Inr e0 \<and>
     reset e0 None 0 = Inr (obs, info, e1, g1) \<and>
     run e1 [scenario_action] = Inr e2 \<and>
     (\<forall>a\<in>set [scenario_action]. NaN \<notin> set a) \<and>
     (\<forall>c\<in>set (capacities e0). 0 \<le> c) \<and>
     within_bounds e2"
proof -
  from scenario_reset_ok obtain obs where
    rs: "reset scenario_init None 0 = Inr (obs, Map.empty, scenario_start, 0)" by blast
  from scenario_step_ok obtain r e2 where
    st: "step scenario_start scenario_action = Inr (r, e2)" by blast
  then have rn: "run scenario_start [scenario_action] = Inr e2" by simp
  have nn: "\<forall>a\<in>set [scenario_action]. NaN \<notin> set a"
    by (simp add: scenario_action_def)
  have cp: "\<forall>c\<in>set (capacities scenario_init). 0 \<le> c"
    by (simp add: scenario_init_def init_scenario)
  from outputs_within_bounds[OF scenario_init_ok rs rn nn cp]
  show ?thesis using scenario_init_ok rs rn nn cp by blast
qed

text \<open>
  Claim C2, evaluated at an action of five NaN from the scenario's start state:
  \<^verbatim>\<open>step\<close> does return, but the reward is NaN and the five output entries of the
  observation are NaN. The repository's own test \<^verbatim>\<open>test_nan_action_handling\<close> expects a
  finite observation. (An infinite entry is handled as the claim says: \<open>np_clip\<close> maps
  it to the nearer bound.)
\<close>

theorem nan_action_not_sanitized:
  "(case step scenario_start nan_action of
      Inl err \<Rightarrow> False
    | Inr ((obs, reward, terminated, truncated, diag), e2) \<Rightarrow>
        reward = NaN \<and> \<not> isfinite reward \<and> take 5 (drop 1 obs) = [NaN, NaN, NaN, NaN, NaN] \<and>
        \<not> list_all isfinite obs)"
  by (simp add: scenario_start_eq nan_action_def step_def adjustments_of_def clip_action_def
      iadd_def broadcast2_def load_at_def demand6_def calculate_reward_def
      get_observation_def forecast_of_def default_weights_def Let_def)

text \<open>
  Claim C3, evaluated at an action of length 1 for five generators: the in-place
  addition stretches the single adjustment over all five outputs and \<^verbatim>\<open>step\<close> returns
  normally, every output raised from 50 to 60. The repository's test
  \<^verbatim>\<open>test_invalid_action_shape\<close> expects an error for this call.
\<close>

theorem short_action_is_broadcast:
  "(case step scenario_start [Fin 1] of
      Inl err \<Rightarrow> False
    | Inr (r, e2) \<Rightarrow> current_output e2 = [Fin 60, Fin 60, Fin 60, Fin 60, Fin 60])"
  by (simp add: scenario_start_eq step_def adjustments_of_def clip_action_def
      iadd_def broadcast2_def load_at_def demand6_def calculate_reward_def
      get_observation_def forecast_of_def Let_def)

lemma step_flags:
  assumes "step e action = Inr ((obs, rew, terminated, truncated, diag), e2)"
  shows "terminated = False" and "truncated = (max_steps e \<le> int (current_step e + 1))"
  using assms
  by (auto simp: step_def Let_def split: sum.splits prod.splits)

lemma run_frame:
  assumes "run e actions = Inr e2"
  shows "load_data e2 = load_data e \<and> max_steps e2 = max_steps e \<and>
         reward_weights e2 = reward_weights e \<and> capacities e2 = capacities e \<and>
         costs e2 = costs e \<and>
         current_step e2 = current_step e + length actions"
  using assms
proof (induction actions arbitrary: e)
  case Nil
  then show ?case by simp
next
  case (Cons a as)
  from Cons.prems obtain r e' where st: "step e a = Inr (r, e')" and rn: "run e' as = Inr e2"
    by (auto split: sum.splits)
  from Cons.IH[OF rn] show ?case
    by (simp add: step_frame[OF st])
qed

lemma run_shape:
  assumes "run e actions = Inr e2"
    and "length (current_output e) = length (capacities e)"
  shows "length (current_output e2) = length (capacities e2)"
  using assms
proof (induction actions arbitrary: e)
  case Nil
  then show ?case by simp
next
  case (Cons a as)
  from Cons.prems(1) obtain r e' where st: "step e a = Inr (r, e')" and rn: "run e' as = Inr e2"
    by (auto split: sum.splits)
  from step_output[OF st] obtain out where
    out: "iadd (current_output e) (adjustments_of e a) = Inr out"
    and cl: "broadcast2 (\<lambda>x c. np_clip x 0 c) out (capacities e) = Inr (current_output e')"
    by blast
  have lo: "length out = length (capacities e)"
    using out Cons.prems(2) by (auto simp: iadd_def split: if_splits)
  with cl have "current_output e' = map2 (\<lambda>x c. np_clip x 0 c) out (capacities e)"
    by (simp add: broadcast2_def)
  then have "length (current_output e') = length (capacities e')"
    using lo by (simp add: step_frame(1)[OF st])
  from Cons.IH[OF rn this] show ?case .
qed

text \<open>
  Claim C5, as the code has it. After construction, \<^verbatim>\<open>reset\<close> and any sequence of
  steps, a further \<^verbatim>\<open>step\<close> that returns gives \<open>terminated = False\<close>, has advanced the
  index by one per step from the reset offset, and gives \<open>truncated = True\<close> exactly
  when the new index is at least the series length minus 5: one less than the length
  minus the forecast horizon of 4, and an absolute index, not a count of steps.
\<close>

theorem truncation_law:
  assumes "init load cfg md = Inr e0"
    and "reset e0 seed g = Inr (obs, info, e1, g1)"
    and "run e1 actions = Inr e2"
    and "step e2 action = Inr ((obs', rew, terminated, truncated, diag), e3)"
  shows "terminated = False \<and>
         current_step e3 = current_step e1 + length actions + 1 \<and>
         (truncated \<longleftrightarrow> int (length load) - 5 \<le> int (current_step e3))"
proof -
  have ms: "max_steps e2 = int (length load) - 5"
    using run_frame[OF assms(3)] reset_fields(6)[OF assms(2)] init_fields(3)[OF assms(1)]
    by simp
  have cs: "current_step e3 = current_step e1 + length actions + 1"
    using run_frame[OF assms(3)] step_frame(8)[OF assms(4)] by simp
  from step_flags[OF assms(4)] ms cs show ?thesis
    using step_frame(8)[OF assms(4)] by simp
qed

text \<open>
  Counterexample to C5 as stated: with six samples the first step returns
  \<open>truncated = True\<close> at index 1, before the index reaches the length minus 4.
\<close>

theorem truncated_before_claimed_horizon:
  "(case step scenario_start scenario_action of
      Inl err \<Rightarrow> False
    | Inr ((obs, rew, terminated, truncated, diag), e2) \<Rightarrow>
        truncated \<and> current_step e2 = 1 \<and>
        int (current_step e2) < int (length (load_data e2)) - 4)"
  by (simp add: scenario_start_eq scenario_action_def step_def adjustments_of_def clip_action_def
      iadd_def broadcast2_def load_at_def demand6_def calculate_reward_def
      get_observation_def forecast_of_def Let_def)

text \<open>
  Witness of C5 (amended): six samples, so the horizon is 1 and the first step
  truncates.
\<close>

theorem truncation_law_witness:
  "\<exists>e0 obs info e1 g1 e2 obs' rew diag e3.
     init demand6 scenario_config ''test'' = Inr e0 \<and>
     reset e0 None 0 = Inr (obs, info, e1, g1) \<and>
     run e1 [] = Inr e2 \<and>
     step e2 scenario_action = Inr ((obs', rew, False, True, diag), e3) \<and>
     current_step e3 = 1 \<and> int (length demand6) - 5 \<le> int (current_step e3)"
proof -
  from scenario_reset_ok obtain obs where
    rs: "reset scenario_init None 0 = Inr (obs, Map.empty, scenario_start, 0)" by blast
  have rn: "run scenario_start [] = Inr scenario_start" by simp
  from scenario_step_ok obtain obs' rew diag e3 where
    st: "step scenario_start scenario_action = Inr ((obs', rew, False, True, diag), e3)" by blast
  from truncation_law[OF scenario_init_ok rs rn st]
  have "current_step e3 = 1 \<and> int (length demand6) - 5 \<le> int (current_step e3)"
    by (simp add: scenario_start_eq)
  with scenario_init_ok rs rn st show ?thesis by blast
qed

text \<open>
  Claim C9, as the code has it: \<^verbatim>\<open>step\<close> has no lifecycle guard. For a constructed
  environment whose capacities and costs have \<open>num_generators > 0\<close> entries and an action
  of that length: called before any \<^verbatim>\<open>reset\<close> on a series of at least two samples,
  \<^verbatim>\<open>step\<close> returns normally; and called in a state where the horizon is already
  reached, it returns normally again, with \<open>truncated = True\<close>, as long as the series
  has a sample after the next index.
\<close>

theorem step_without_lifecycle_guard:
  assumes "init load cfg md = Inr e0"
    and "length (capacities e0) = nat (num_generators e0)"
    and "length (costs e0) = nat (num_generators e0)"
    and "0 < num_generators e0"
    and "length action = nat (num_generators e0)"
  shows "(2 \<le> length load \<longrightarrow>
            (\<exists>obs rew truncated diag e. step e0 action = Inr ((obs, rew, False, truncated, diag), e)))
       \<and> (\<forall>seed g obs info e1 g1 actions e2.
            reset e0 seed g = Inr (obs, info, e1, g1) \<longrightarrow>
            run e1 actions = Inr e2 \<longrightarrow>
            max_steps e2 \<le> int (current_step e2) \<longrightarrow>
            current_step e2 + 1 < length load \<longrightarrow>
            (\<exists>obs' rew diag e3. step e2 action = Inr ((obs', rew, False, True, diag), e3)))"
proof (intro conjI impI allI)
  assume "2 \<le> length load"
  then have "current_step e0 + 1 < length (load_data e0)"
    by (simp add: init_fields[OF assms(1)])
  moreover have "length (current_output e0) = length (capacities e0)"
    by (simp add: init_fields(10)[OF assms(1)] assms(2))
  moreover have "capacities e0 \<noteq> []" using assms(2,4) by auto
  ultimately show "\<exists>obs rew truncated diag e.
      step e0 action = Inr ((obs, rew, False, truncated, diag), e)"
    using step_succeeds[of e0 action] assms(2,3,5) by auto
next
  fix seed g obs info e1 g1 actions e2
  assume rs: "reset e0 seed g = Inr (obs, info, e1, g1)"
    and rn: "run e1 actions = Inr e2"
    and tr: "max_steps e2 \<le> int (current_step e2)"
    and ix: "current_step e2 + 1 < length load"
  note rf = reset_fields[OF rs]
  note fr = run_frame[OF rn]
  have caps: "capacities e2 = capacities e0" "costs e2 = costs e0" "load_data e2 = load"
    using fr rf init_fields(1)[OF assms(1)] by simp_all
  have len1: "length (current_output e1) = length (capacities e1)"
    by (simp add: rf)
  have len2: "length (current_output e2) = length (capacities e2)"
    using run_shape[OF rn len1] .
  have "capacities e2 \<noteq> []" using assms(2,4) caps by auto
  moreover have "length (costs e2) = length (capacities e2)"
    using caps assms(2,3) by simp
  moreover have "length action = length (capacities e2)"
    using caps assms(2,5) by simp
  moreover have "current_step e2 + 1 < length (load_data e2)"
    using ix caps by simp
  ultimately obtain obs' rew diag e3 where
    "step e2 action = Inr ((obs', rew, False, int (current_step e2 + 1) \<ge> max_steps e2, diag), e3)"
    using step_succeeds[OF len2, of action] by blast
  moreover have "int (current_step e2 + 1) \<ge> max_steps e2" using tr by simp
  ultimately show "\<exists>obs' rew diag e3. step e2 action = Inr ((obs', rew, False, True, diag), e3)"
    by auto
qed

text \<open>
  Counterexample to C9 as stated: on the freshly constructed scenario, \<^verbatim>\<open>step\<close>
  without a \<^verbatim>\<open>reset\<close> returns a normal result, computed from the constructor's outputs
  of 0.
\<close>

theorem step_before_reset_succeeds:
  "(case step scenario_init scenario_action of
      Inl err \<Rightarrow> False
    | Inr ((obs, rew, terminated, truncated, diag), e2) \<Rightarrow>
        current_output e2 = [Fin 10, Fin 10, Fin 0, Fin 0, Fin 0] \<and> current_step e2 = 1)"
  by (simp add: scenario_init_def init_scenario scenario_action_def step_def adjustments_of_def
      clip_action_def iadd_def broadcast2_def load_at_def demand6_def calculate_reward_def
      get_observation_def forecast_of_def Let_def)

text \<open>
  Witness of C9 (amended): the scenario on six samples; the step before \<^verbatim>\<open>reset\<close>
  returns, and so does a second step after the first one truncated.
\<close>

theorem step_without_lifecycle_guard_witness:
  "\<exists>e0 obs info e1 g1 e2.
     init demand6 scenario_config ''test'' = Inr e0 \<and>
     length (capacities e0) = nat (num_generators e0) \<and>
     length (costs e0) = nat (num_generators e0) \<and>
     0 < num_generators e0 \<and>
     length scenario_action = nat (num_generators e0) \<and>
     2 \<le> length demand6 \<and>
     (\<exists>obs rew truncated diag e. step e0 scenario_action = Inr ((obs, rew, False, truncated, diag), e)) \<and>
     reset e0 None 0 = Inr (obs, info, e1, g1) \<and>
     run e1 [scenario_action] = Inr e2 \<and>
     max_steps e2 \<le> int (current_step e2) \<and>
     current_step e2 + 1 < length demand6 \<and>
     (\<exists>obs' rew diag e3. step e2 scenario_action = Inr ((obs', rew, False, True, diag), e3))"
proof -
  have h: "length (capacities scenario_init) = nat (num_generators scenario_init)"
      "length (costs scenario_init) = nat (num_generators scenario_init)"
      "0 < num_generators scenario_init"
      "length scenario_action = nat (num_generators scenario_init)"
    by (simp_all add: scenario_init_def init_scenario scenario_action_def)
  have l2: "2 \<le> length demand6" by (simp add: demand6_def)
  from scenario_reset_ok obtain obs where
    rs: "reset scenario_init None 0 = Inr (obs, Map.empty, scenario_start, 0)" by blast
  from scenario_step_ok obtain r e2 where
    st: "step scenario_start scenario_action = Inr (r, e2)" by blast
  then have rn: "run scenario_start [scenario_action] = Inr e2" by simp
  have tr: "max_steps e2 \<le> int (current_step e2)"
    by (simp add: step_frame[OF st] scenario_start_eq)
  have ix: "current_step e2 + 1 < length demand6"
    by (simp add: step_frame[OF st] scenario_start_eq demand6_def)
  note g = step_without_lifecycle_guard[OF scenario_init_ok h]
  from g l2 have a: "\<exists>obs rew truncated diag e.
      step scenario_init scenario_action = Inr ((obs, rew, False, truncated, diag), e)"
    by blast
  from g rs rn tr ix have b: "\<exists>obs' rew diag e3.
      step e2 scenario_action = Inr ((obs', rew, False, True, diag), e3)"
    by blast
  show ?thesis
    using scenario_init_ok h l2 a rs rn tr ix b by blast
qed

lemma randint_range:
  assumes "randint 0 high g = Inr (k, g')"
  shows "0 \<le> k \<and> k < high"
proof -
  from assms have h: "0 < high" and k: "k = int (g mod nat high)"
    by (auto simp: randint_def split: if_splits)
  have "g mod nat high < nat high" using h by simp
  with k h show ?thesis by linarith
qed

text \<open>
  Claim C4, as the code has it, for a non-empty demand series (the empty series is left
  out: the repository's test \<^verbatim>\<open>test_empty_data_handling\<close> expects construction to
  refuse it). For a constructed environment with at least one capacity and a seed that
  is absent or non-negative: in train mode \<^verbatim>\<open>reset\<close> fails when the series has fewer
  than 30 samples (the offset sampler raises ValueError on its empty range) and
  otherwise returns an offset below \<open>length - 29\<close>, the observation of the new state and
  an empty info dictionary; in every other mode it succeeds at offset 0 on every
  non-empty series, however short, with the observation of the new state and an empty
  info dictionary.
\<close>

theorem reset_on_nonempty_series:
  assumes "init load cfg md = Inr e0"
    and "capacities e0 \<noteq> []"
    and "load \<noteq> []"
    and "\<forall>s. seed = Some s \<longrightarrow> 0 \<le> s"
  shows "(md = ''train'' \<and> length load < 30 \<longrightarrow> reset e0 seed g = Inl ValueError)
       \<and> (md = ''train'' \<and> 30 \<le> length load \<longrightarrow>
            (\<exists>obs e1. reset e0 seed g = Inr (obs, Map.empty, e1, Suc g) \<and>
               int (current_step e1) < int (length load) - 29 \<and>
               get_observation e1 = Inr obs))
       \<and> (md \<noteq> ''train'' \<longrightarrow>
            (\<exists>obs e1. reset e0 seed g = Inr (obs, Map.empty, e1, g) \<and>
               current_step e1 = 0 \<and> get_observation e1 = Inr obs))"
proof -
  note f = init_fields[OF assms(1)]
  have vs: "\<not> (case seed of None \<Rightarrow> False | Some s \<Rightarrow> s < 0)"
    using assms(4) by (auto split: option.splits)
  define e0' where "e0' = (case seed of None \<Rightarrow> e0 | Some s \<Rightarrow> e0\<lparr>np_random := Some s\<rparr>)"
  have f': "mode e0' = md" "max_steps e0' = int (length load) - 5" "load_data e0' = load"
    "capacities e0' = capacities e0"
    by (simp_all add: e0'_def f split: option.splits)
  have A: "reset e0 seed g = Inl ValueError" if "md = ''train''" "length load < 30"
    using that vs by (simp add: reset_def Let_def e0'_def[symmetric] f' randint_def)
  have B: "\<exists>obs e1. reset e0 seed g = Inr (obs, Map.empty, e1, Suc g) \<and>
               int (current_step e1) < int (length load) - 29 \<and> get_observation e1 = Inr obs"
    if "md = ''train''" "30 \<le> length load"
  proof -
    define k where "k = int (g mod nat (int (length load) - 29))"
    have ri: "randint 0 (max_steps e0' - 24) g = Inr (k, Suc g)"
      using that(2) by (simp add: randint_def f' k_def)
    from randint_range[OF ri] have kr: "0 \<le> k" "k < int (length load) - 29"
      by (simp_all add: f')
    define e2 where "e2 = e0'\<lparr>current_step := nat k,
        current_output := map (\<lambda>c. Fin (c * 0.5)) (capacities e0')\<rparr>"
    have "current_step e2 < length (load_data e2)" "capacities e2 \<noteq> []"
      using kr assms(2) by (simp_all add: e2_def f')
    from get_observation_succeeds[OF this] obtain obs where ob: "get_observation e2 = Inr obs"
      by blast
    have "reset e0 seed g = Inr (obs, Map.empty, e2, Suc g)"
      using that(1) ri ob vs by (simp add: reset_def Let_def e0'_def[symmetric] f' e2_def)
    moreover have "int (current_step e2) < int (length load) - 29"
      using kr by (simp add: e2_def)
    ultimately show ?thesis using ob by blast
  qed
  have D: "\<exists>obs e1. reset e0 seed g = Inr (obs, Map.empty, e1, g) \<and>
               current_step e1 = 0 \<and> get_observation e1 = Inr obs"
    if "md \<noteq> ''train''"
  proof -
    define e2 where "e2 = e0'\<lparr>current_step := 0,
        current_output := map (\<lambda>c. Fin (c * 0.5)) (capacities e0')\<rparr>"
    have "current_step e2 < length (load_data e2)" "capacities e2 \<noteq> []"
      using assms(2,3) by (simp_all add: e2_def f')
    from get_observation_succeeds[OF this] obtain obs where ob: "get_observation e2 = Inr obs"
      by blast
    have "reset e0 seed g = Inr (obs, Map.empty, e2, g)"
      using that ob vs by (simp add: reset_def Let_def e0'_def[symmetric] f' e2_def)
    moreover have "current_step e2 = 0" by (simp add: e2_def)
    ultimately show ?thesis using ob by blast
  qed
  from A B D show ?thesis by blast
qed

text \<open>
  Counterexample to C4 as stated: in test mode a series of three samples, shorter
  than the forecast horizon alone, is accepted by \<^verbatim>\<open>reset\<close>, which returns a
  twelve-entry observation.
\<close>

theorem short_series_reset_succeeds:
  "(case reset (projr (init demand3 scenario_config ''test'')) None 0 of
      Inl err \<Rightarrow> False
    | Inr (obs, info, e1, g1) \<Rightarrow>
        length demand3 < 24 + 4 \<and> current_step e1 = 0 \<and> length obs = 12)"
  by (simp add: init_scenario reset_def get_observation_def load_at_def
      demand3_def forecast_of_def Let_def)

text \<open>
  Witness of C4 (amended): train mode on a series of 100 samples with seed 42, and
  test mode on a series of three samples without a seed.
\<close>

theorem reset_on_nonempty_series_witness:
  "(\<exists>e0. init demand100 scenario_config ''train'' = Inr e0 \<and> capacities e0 \<noteq> [] \<and>
      demand100 \<noteq> [] \<and> 30 \<le> length demand100 \<and>
      (\<exists>obs e1. reset e0 (Some 42) 7 = Inr (obs, Map.empty, e1, Suc 7) \<and>
         int (current_step e1) < int (length demand100) - 29 \<and>
         get_observation e1 = Inr obs))
 \<and> (\<exists>e0. init demand3 scenario_config ''test'' = Inr e0 \<and> capacities e0 \<noteq> [] \<and>
      demand3 \<noteq> [] \<and>
      (\<exists>obs e1. reset e0 None 0 = Inr (obs, Map.empty, e1, 0) \<and>
         current_step e1 = 0 \<and> get_observation e1 = Inr obs))"
proof -
  have i: "init demand100 scenario_config ''train'' = Inr train_env"
    by (simp add: train_env_def init_scenario)
  have c: "capacities train_env \<noteq> []"
    by (simp add: train_env_def init_scenario)
  have n: "demand100 \<noteq> []" and l: "30 \<le> length demand100"
    by (simp_all add: demand100_def)
  have v: "\<forall>s. Some (42::int) = Some s \<longrightarrow> 0 \<le> s" by simp
  from reset_on_nonempty_series[OF i c n v, of 7] l
  have t: "\<exists>obs e1. reset train_env (Some 42) 7 = Inr (obs, Map.empty, e1, Suc 7) \<and>
         int (current_step e1) < int (length demand100) - 29 \<and>
         get_observation e1 = Inr obs"
    by simp
  define e3 where "e3 = projr (init demand3 scenario_config ''test'')"
  have i3: "init demand3 scenario_config ''test'' = Inr e3"
    by (simp add: e3_def init_scenario)
  have c3: "capacities e3 \<noteq> []"
    by (simp add: e3_def init_scenario)
  have n3: "demand3 \<noteq> []" by (simp add: demand3_def)
  have v3: "\<forall>s. (None::int option) = Some s \<longrightarrow> 0 \<le> s" by simp
  from reset_on_nonempty_series[OF i3 c3 n3 v3, of 0]
  have u: "\<exists>obs e1. reset e3 None 0 = Inr (obs, Map.empty, e1, 0) \<and>
         current_step e1 = 0 \<and> get_observation e1 = Inr obs"
    by simp
  from i c n l t i3 c3 n3 u show ?thesis by blast
qed

text \<open>
  Claim C6, evaluated in train mode on a series of 100 samples: two resets with the
  same seed 42, met by two different states of the process-wide generator, start at
  offsets 0 and 1 and return different observations. The seed reaches only
  \<open>np_random\<close>, which the offset is not drawn from.
\<close>

theorem train_reset_ignores_seed:
  "(case (reset train_env (Some 42) 0, reset train_env (Some 42) 1) of
      (Inr (obs1, info1, e1, g1), Inr (obs2, info2, e2, g2)) \<Rightarrow>
         np_random e1 = Some 42 \<and> np_random e2 = Some 42 \<and>
         current_step e1 = 0 \<and> current_step e2 = 1 \<and>
         hd obs1 = Fin 0 \<and> hd obs2 = Fin (1 / 10000) \<and> obs1 \<noteq> obs2
    | _ \<Rightarrow> False)"
  by (simp add: train_env_def init_scenario reset_def randint_def get_observation_def load_at_def
      demand100_def forecast_of_def Let_def)




end
